theory Spec2Isabelle
  imports Complex_Main
begin

section \<open>Data model\<close>

text \<open>
  The exceptions the modelled functions raise themselves. \<open>RuntimeError\<close> carries the
  message of the \<^verbatim>\<open>raise\<close> statement; \<open>IndexError\<close> and \<open>ValueError\<close> are the ones
  numpy and Python raise on an index out of range, on a value that cannot be broadcast
  and on the minimum of an empty array.
\<close>

datatype error = RuntimeError string | IndexError | ValueError

text \<open>
  A numpy array as numpy stores it: the shape tuple and the elements in row-major
  order. The wavefront is complex, so the result array, which is allocated with the
  dtype of the input, takes the propagated values unchanged.
\<close>

datatype ndarray = NDArray (shape: "nat list") (data: "complex list")

definition well_formed :: "ndarray \<Rightarrow> bool" where
  "well_formed a = (length (data a) = prod_list (shape a))"

definition zeros :: "nat list \<Rightarrow> ndarray" where
  "zeros sh = NDArray sh (replicate (prod_list sh) 0)"

section \<open>utils.propagateNearfield\<close>

text \<open>
  The second argument is either a sequence of distances or a single number: \<^verbatim>\<open>len\<close> of a
  number raises TypeError, which the function catches to wrap the number in a list.
\<close>

datatype distances_arg = Scalar real | Sequence "real list"

definition as_sequence :: "distances_arg \<Rightarrow> real list" where
  "as_sequence distances = (case distances of Scalar d \<Rightarrow> [d] | Sequence ds \<Rightarrow> ds)"

text \<open>
  The parameter object handed to ptypy's geometry class. The six fields the function
  assigns are named; every other entry of ptypy's defaults lives in the extension part
  of the record and is never touched.
\<close>

record geo_pars =
  energy :: real
  distance :: real
  resolution :: real
  psize :: real
  shape_par :: nat
  propagation :: string

text \<open>
  The geometry object of ptypy: its attribute \<open>p\<close> holds the parameters (the loop writes
  \<^verbatim>\<open>geo.p.distance\<close>), the rest of its state is opaque.
\<close>

record ('z, 's) geo =
  p :: "'z geo_pars_scheme"
  internal :: 's

text \<open>
  ptypy is an external library, so what the function calls of it is a parameter of the
  model: the default parameters, the constructor of the geometry, its \<^verbatim>\<open>update\<close> method
  and the forward propagation of its propagator.
\<close>

record ('z, 's) ptypy =
  DEFAULT :: "'z geo_pars_scheme"
  Geo :: "'z geo_pars_scheme \<Rightarrow> ('z, 's) geo"
  update :: "('z, 's) geo \<Rightarrow> ('z, 's) geo"
  propagator_fw :: "('z, 's) geo \<Rightarrow> ndarray \<Rightarrow> ndarray"

text \<open>
  Assigning a value to the plane \<^verbatim>\<open>result[i, :, :]\<close> of shape \<open>(R, C)\<close>: numpy drops
  leading axes of length one while the value has more than two axes, aligns the shapes
  at the right, repeats an axis of length one and raises ValueError otherwise.
\<close>

fun strip_ones :: "nat list \<Rightarrow> nat list" where
  "strip_ones [] = []"
| "strip_ones (d # ds) = (if d = 1 \<and> 2 \<le> length ds then strip_ones ds else d # ds)"

definition broadcast_from :: "nat \<Rightarrow> nat \<Rightarrow> nat \<Rightarrow> nat \<Rightarrow> complex list \<Rightarrow> error + complex list" where
  "broadcast_from R C r c dv =
     (if (r = R \<or> r = 1) \<and> (c = C \<or> c = 1)
      then Inr (concat (map (\<lambda>i. map (\<lambda>j. dv ! ((if r = 1 then 0 else i) * c + (if c = 1 then 0 else j)))
                                      [0..<C]) [0..<R]))
      else Inl ValueError)"

definition broadcast_plane :: "nat \<Rightarrow> nat \<Rightarrow> ndarray \<Rightarrow> error + complex list" where
  "broadcast_plane R C v =
     (case strip_ones (shape v) of
        [] \<Rightarrow> broadcast_from R C 1 1 (data v)
      | [c] \<Rightarrow> broadcast_from R C 1 c (data v)
      | [r, c] \<Rightarrow> broadcast_from R C r c (data v)
      | _ \<Rightarrow> Inl ValueError)"

definition set_plane :: "ndarray \<Rightarrow> nat \<Rightarrow> ndarray \<Rightarrow> error + ndarray" where
  "set_plane result i v =
     (let R = shape result ! 1; C = shape result ! 2 in
      case broadcast_plane R C v of
        Inl e \<Rightarrow> Inl e
      | Inr plane \<Rightarrow>
          Inr (NDArray (shape result)
                 (take (i * (R * C)) (data result) @ plane @ drop (i * (R * C) + R * C) (data result))))"

definition plane :: "ndarray \<Rightarrow> nat \<Rightarrow> complex list" where
  "plane a i = (let m = prod_list (tl (shape a)) in take m (drop (i * m) (data a)))"

text \<open>
  The loop over \<^verbatim>\<open>range(N)\<close>: it writes the distance into the geometry, updates the
  geometry, propagates the wavefront and stores the result in plane \<open>i\<close>.
\<close>

fun propagate_loop ::
  "('z, 's) ptypy \<Rightarrow> ndarray \<Rightarrow> real list \<Rightarrow> nat list \<Rightarrow> ('z, 's) geo \<Rightarrow> ndarray \<Rightarrow> error + ndarray"
where
  "propagate_loop api A distances [] geo result = Inr result"
| "propagate_loop api A distances (i # rest) geo result =
     (let geo1 = geo\<lparr>p := (p geo)\<lparr>distance := distances ! i\<rparr>\<rparr>;
          geo2 = update api geo1
      in case set_plane result i (propagator_fw api geo2 A) of
           Inl e \<Rightarrow> Inl e
         | Inr result' \<Rightarrow> propagate_loop api A distances rest geo2 result')"

text \<open>
  The parameters for the propagator: a copy of ptypy's defaults with the energy, the
  first distance, the pixel size (also as the resolution), the size of the array and
  the kind of propagation written into it.
\<close>

definition make_geo_pars ::
  "('z, 's) ptypy \<Rightarrow> ndarray \<Rightarrow> real \<Rightarrow> real \<Rightarrow> real \<Rightarrow> 'z geo_pars_scheme"
where
  "make_geo_pars api A psize' d0 energy' =
     (DEFAULT api)\<lparr>energy := energy', distance := d0, resolution := psize', psize := psize',
                    shape_par := shape A ! 0, propagation := ''nearfield''\<rparr>"

text \<open>
  The function itself. The check for a square array is written with \<^verbatim>\<open>assert\<close>, whose
  failure is turned into a RuntimeError; the model is of the interpreter in its default
  mode, where assertions run. An empty list of distances fails at \<^verbatim>\<open>distances[0]\<close>. The
  result is allocated as zeros of shape \<open>(N,) + A.shape\<close> and filled plane by plane.
\<close>

definition not_square_message :: string where
  "not_square_message = ''Wavefront array must be N x N''"

definition propagateNearfield ::
  "('z, 's) ptypy \<Rightarrow> ndarray \<Rightarrow> real \<Rightarrow> distances_arg \<Rightarrow> real \<Rightarrow> error + ndarray"
where
  "propagateNearfield api A psize' distances energy' =
     (if length (shape A) \<noteq> 2 then Inl (RuntimeError not_square_message)
      else if shape A ! 0 \<noteq> shape A ! 1 then Inl (RuntimeError not_square_message)
      else
        let ds = as_sequence distances in
        case ds of
          [] \<Rightarrow> Inl IndexError
        | d0 # _ \<Rightarrow>
            let geo_pars = make_geo_pars api A psize' d0 energy';
                geo = Geo api geo_pars;
                N = length ds;
                result = zeros (N # shape A)
            in propagate_loop api A ds [0..<N] geo result)"

text \<open>
  What the theorems below assume of ptypy where they need it: the geometry keeps the
  parameters it was built from in \<open>p\<close>, \<^verbatim>\<open>update\<close> leaves them as they are and rebuilds
  the propagator from them, so that the forward propagation after an update is a
  function \<open>nearfield\<close> of the parameters and the wavefront alone.
\<close>

definition geo_contract ::
  "('z, 's) ptypy \<Rightarrow> ('z geo_pars_scheme \<Rightarrow> ndarray \<Rightarrow> ndarray) \<Rightarrow> bool"
where
  "geo_contract api nearfield =
     ((\<forall>pars. p (Geo api pars) = pars) \<and>
      (\<forall>g. p (update api g) = p g) \<and>
      (\<forall>g A. propagator_fw api (update api g) A = nearfield (p g) A))"

definition shape_preserving :: "('z geo_pars_scheme \<Rightarrow> ndarray \<Rightarrow> ndarray) \<Rightarrow> bool" where
  "shape_preserving nearfield =
     (\<forall>pars A. shape (nearfield pars A) = shape A \<and>
               length (data (nearfield pars A)) = length (data A))"

text \<open>
  A small geometry to run the model on concrete inputs: its propagator multiplies every
  pixel by a factor, one plus the distance, which only \<^verbatim>\<open>update\<close> computes from the
  parameters.
\<close>

definition scaling_nearfield :: "unit geo_pars_scheme \<Rightarrow> ndarray \<Rightarrow> ndarray" where
  "scaling_nearfield pars A = NDArray (shape A) (map (\<lambda>z. of_real (1 + distance pars) * z) (data A))"

definition scaling_ptypy :: "(unit, real) ptypy" where
  "scaling_ptypy =
     \<lparr>DEFAULT = \<lparr>energy = 1, distance = 0, resolution = 1, psize = 1, shape_par = 1,
                   propagation = ''farfield''\<rparr>,
      Geo = (\<lambda>pars. \<lparr>p = pars, internal = 0\<rparr>),
      update = (\<lambda>g. g\<lparr>internal := 1 + distance (p g)\<rparr>),
      propagator_fw = (\<lambda>g A. NDArray (shape A) (map (\<lambda>z. of_real (internal g) * z) (data A)))\<rparr>"

text \<open>
  A second geometry for concrete inputs, whose propagator depends on all three of the
  distance, the energy and the pixel size: it multiplies every pixel by the exponential
  of their product, so that the propagation by \<open>-d\<close> undoes the propagation by \<open>d\<close>.
\<close>

definition exp_nearfield :: "unit geo_pars_scheme \<Rightarrow> ndarray \<Rightarrow> ndarray" where
  "exp_nearfield pars A =
     NDArray (shape A) (map (\<lambda>z. of_real (exp (distance pars * energy pars * psize pars)) * z) (data A))"

definition exp_ptypy :: "(unit, real) ptypy" where
  "exp_ptypy =
     \<lparr>DEFAULT = \<lparr>energy = 1, distance = 0, resolution = 1, psize = 1, shape_par = 1,
                   propagation = ''farfield''\<rparr>,
      Geo = (\<lambda>pars. \<lparr>p = pars, internal = 1\<rparr>),
      update = (\<lambda>g. g\<lparr>internal := exp (distance (p g) * energy (p g) * psize (p g))\<rparr>),
      propagator_fw = (\<lambda>g A. NDArray (shape A) (map (\<lambda>z. of_real (internal g) * z) (data A)))\<rparr>"

section \<open>utils.fft and utils.ifft\<close>

text \<open>
  \<^verbatim>\<open>np.roll\<close> along one axis moves the element at index \<open>i\<close> to index \<open>i + s\<close> modulo
  the length. Along all axes of an array stored in row-major order it rolls the blocks
  of the first axis and, within each block, the remaining axes.
\<close>

definition roll :: "int \<Rightarrow> 'a list \<Rightarrow> 'a list" where
  "roll s xs = rotate (nat ((- s) mod int (length xs))) xs"

definition blocks :: "nat \<Rightarrow> nat \<Rightarrow> 'a list \<Rightarrow> 'a list list" where
  "blocks n m d = map (\<lambda>i. take m (drop (i * m) d)) [0..<n]"

fun roll_axes :: "(nat \<Rightarrow> int) \<Rightarrow> nat list \<Rightarrow> 'a list \<Rightarrow> 'a list" where
  "roll_axes s [] d = d"
| "roll_axes s (n # sh) d = concat (roll (s n) (map (roll_axes s sh) (blocks n (prod_list sh) d)))"

text \<open>
  \<^verbatim>\<open>np.fft.fftshift\<close> rolls every axis by half its length (rounded down),
  \<^verbatim>\<open>np.fft.ifftshift\<close> by minus that.
\<close>

definition fftshift :: "ndarray \<Rightarrow> ndarray" where
  "fftshift a = NDArray (shape a) (roll_axes (\<lambda>n. int (n div 2)) (shape a) (data a))"

definition ifftshift :: "ndarray \<Rightarrow> ndarray" where
  "ifftshift a = NDArray (shape a) (roll_axes (\<lambda>n. - int (n div 2)) (shape a) (data a))"

text \<open>
  The two helpers. The transforms of pyfftw are parameters: \<open>fftn\<close> and \<open>ifftn\<close>.
\<close>

definition fft :: "(ndarray \<Rightarrow> ndarray) \<Rightarrow> ndarray \<Rightarrow> ndarray" where
  "fft fftn a = fftshift (fftn a)"

definition ifft :: "(ndarray \<Rightarrow> ndarray) \<Rightarrow> ndarray \<Rightarrow> ndarray" where
  "ifft ifftn a = ifftn (ifftshift a)"

text \<open>
  A pair of transforms to run the helpers on concrete inputs: one doubles every element,
  the other halves it.
\<close>

definition scale_array :: "complex \<Rightarrow> ndarray \<Rightarrow> ndarray" where
  "scale_array k a = NDArray (shape a) (map (\<lambda>z. k * z) (data a))"

section \<open>XrfWidget.updateMap: the signal of a region of interest\<close>

text \<open>
  The mean of numpy over an empty slice is \<open>nan\<close>, with a warning and no exception.
\<close>

datatype npfloat = Finite real | NaN

definition mean :: "real list \<Rightarrow> npfloat" where
  "mean xs = (if xs = [] then NaN else Finite (sum_list xs / real (length xs)))"

text \<open>
  \<^verbatim>\<open>argmin\<close> is the index of the first occurrence of the minimum and raises ValueError
  on an empty array.
\<close>

fun first_index :: "real \<Rightarrow> real list \<Rightarrow> nat" where
  "first_index v [] = 0"
| "first_index v (x # xs) = (if x = v then 0 else Suc (first_index v xs))"

definition argmin :: "real list \<Rightarrow> error + nat" where
  "argmin xs = (if xs = [] then Inl ValueError else Inr (first_index (min_list xs) xs))"

definition nearest_index :: "real list \<Rightarrow> real \<Rightarrow> error + nat" where
  "nearest_index xvector v = argmin (map (\<lambda>x. \<bar>x - v\<bar>) xvector)"

definition slice :: "nat \<Rightarrow> nat \<Rightarrow> 'a list \<Rightarrow> 'a list" where
  "slice lower upper row = take (upper - lower) (drop lower row)"

text \<open>
  The average that \<^verbatim>\<open>updateMap\<close> hands to the interpolation: \<open>roi\<close> is the pair
  \<^verbatim>\<open>(roi.getFrom(), roi.getTo())\<close> of the current region of interest, if there is one;
  \<open>data\<close> holds one row of channels for each position and \<open>xvector\<close> the axis values of
  the channels.
\<close>

definition updateMap_average ::
  "(real \<times> real) option \<Rightarrow> real list list \<Rightarrow> real list \<Rightarrow> error + npfloat list"
where
  "updateMap_average roi data1d xvector =
     (case roi of
        None \<Rightarrow> Inr (map mean data1d)
      | Some (lowerval, upperval) \<Rightarrow>
          (case nearest_index xvector upperval of
             Inl e \<Rightarrow> Inl e
           | Inr upper \<Rightarrow>
               (case nearest_index xvector lowerval of
                  Inl e \<Rightarrow> Inl e
                | Inr lower \<Rightarrow> Inr (map (\<lambda>row. mean (slice lower upper row)) data1d))))"

text \<open>
  What the specification expects of a window of zero width: for every position the
  value of the one channel at the index.
\<close>

definition single_column_mean :: "real list list \<Rightarrow> nat \<Rightarrow> npfloat list" where
  "single_column_mean data1d k = map (\<lambda>row. mean [row ! k]) data1d"

section \<open>XrfWidget.updateSpectrum: the positions under a mask\<close>

text \<open>
  The grids \<open>x\<close> and \<open>y\<close> and the mask are two-dimensional arrays, kept as lists of rows.
  \<^verbatim>\<open>np.where(mask)\<close> lists the indices of the set cells in row-major order; indexing a
  grid with them raises IndexError when one of them lies outside the grid.
\<close>

definition get2 :: "'a list list \<Rightarrow> nat \<Rightarrow> nat \<Rightarrow> error + 'a" where
  "get2 a r c = (if r < length a \<and> c < length (a ! r) then Inr (a ! r ! c) else Inl IndexError)"

definition where_mask :: "bool list list \<Rightarrow> (nat \<times> nat) list" where
  "where_mask mask' =
     concat (map (\<lambda>r. map (\<lambda>c. (r, c)) (filter (\<lambda>c. mask' ! r ! c) [0..<length (mask' ! r)]))
                 [0..<length mask'])"

definition take_points :: "'a list list \<Rightarrow> (nat \<times> nat) list \<Rightarrow> error + 'a list" where
  "take_points a idx =
     (if list_all (\<lambda>(r, c). r < length a \<and> c < length (a ! r)) idx
      then Inr (map (\<lambda>(r, c). a ! r ! c) idx)
      else Inl IndexError)"

definition pointSpacing2 :: "real list list \<Rightarrow> real list list \<Rightarrow> error + real" where
  "pointSpacing2 x y =
     (case get2 x 0 1 of Inl e \<Rightarrow> Inl e | Inr x01 \<Rightarrow>
     (case get2 x 0 0 of Inl e \<Rightarrow> Inl e | Inr x00 \<Rightarrow>
     (case get2 y 0 0 of Inl e \<Rightarrow> Inl e | Inr y00 \<Rightarrow>
     (case get2 y 1 0 of Inl e \<Rightarrow> Inl e | Inr y10 \<Rightarrow>
        Inr ((x01 - x00)\<^sup>2 + (y00 - y10)\<^sup>2)))))"

definition dist2 :: "real \<times> real \<Rightarrow> real \<times> real \<Rightarrow> real" where
  "dist2 pos pt = (fst pt - fst pos)\<^sup>2 + (snd pt - snd pos)\<^sup>2"

definition min_dist2 :: "(real \<times> real) list \<Rightarrow> real \<times> real \<Rightarrow> error + real" where
  "min_dist2 maskedPoints pos =
     (if maskedPoints = [] then Inl ValueError else Inr (min_list (map (dist2 pos) maskedPoints)))"

fun positions_loop ::
  "(real \<times> real) list \<Rightarrow> real \<Rightarrow> (real \<times> real) list \<Rightarrow> nat list \<Rightarrow> nat list \<Rightarrow> error + nat list"
where
  "positions_loop maskedPoints spacing2 positions [] maskedPositions = Inr maskedPositions"
| "positions_loop maskedPoints spacing2 positions (i # rest) maskedPositions =
     (case min_dist2 maskedPoints (positions ! i) of
        Inl e \<Rightarrow> Inl e
      | Inr d \<Rightarrow>
          positions_loop maskedPoints spacing2 positions rest
            (if d < spacing2 then maskedPositions @ [i] else maskedPositions))"

text \<open>
  The branch of \<^verbatim>\<open>updateSpectrum\<close> for a mask with a set cell: \<open>x\<close> and \<open>y\<close> are the grids
  that the scan's \<^verbatim>\<open>interpolatedMap\<close> returns and \<open>positions\<close> the positions of the scan,
  one for each index below \<^verbatim>\<open>nPositions\<close>.
\<close>

definition maskedPositions ::
  "(real \<times> real) list \<Rightarrow> real list list \<Rightarrow> real list list \<Rightarrow> bool list list \<Rightarrow> error + nat list"
where
  "maskedPositions positions x y mask' =
     (case take_points x (where_mask mask') of Inl e \<Rightarrow> Inl e | Inr xs \<Rightarrow>
     (case take_points y (where_mask mask') of Inl e \<Rightarrow> Inl e | Inr ys \<Rightarrow>
     (case pointSpacing2 x y of Inl e \<Rightarrow> Inl e | Inr spacing2 \<Rightarrow>
        positions_loop (zip xs ys) spacing2 positions [0..<length positions] [])))"

text \<open>
  The positions whose spectra \<^verbatim>\<open>updateSpectrum\<close> averages in the mode \<^verbatim>\<open>'roi'\<close>: all of
  them when there is no mask or no cell of it is set.
\<close>

definition mask_is_empty :: "bool list list \<Rightarrow> bool" where
  "mask_is_empty mask' = (sum_list (map (\<lambda>row. length (filter id row)) mask') = 0)"

definition updateSpectrum_positions ::
  "(real \<times> real) list \<Rightarrow> real list list \<Rightarrow> real list list \<Rightarrow> bool list list option \<Rightarrow> error + nat list"
where
  "updateSpectrum_positions positions x y mask' =
     (case mask' of
        None \<Rightarrow> Inr [0..<length positions]
      | Some m \<Rightarrow>
          if mask_is_empty m then Inr [0..<length positions]
          else maskedPositions positions x y m)"

text \<open>
  Modelled from the spec: the grid of the scan's \<^verbatim>\<open>interpolatedMap\<close>, which is not among
  the sources. It is regular with one spacing in both directions, and with the origin
  in the upper left corner row 0 is the top row: \<open>R\<close> rows and \<open>C\<close> columns from the
  corner \<open>(x0, y0)\<close>. These are its \<open>x\<close> coordinates, increasing by one spacing for
  each column.
\<close>

definition grid_x :: "real \<Rightarrow> real \<Rightarrow> nat \<Rightarrow> nat \<Rightarrow> real list list" where
  "grid_x x0 spacing R C = replicate R (map (\<lambda>c. x0 + real c * spacing) [0..<C])"

text \<open>
  Modelled from the spec: the \<open>y\<close> coordinates of the same grid of \<^verbatim>\<open>interpolatedMap\<close>,
  decreasing from the top row by one spacing for each row.
\<close>

definition grid_y :: "real \<Rightarrow> real \<Rightarrow> nat \<Rightarrow> nat \<Rightarrow> real list list" where
  "grid_y y0 spacing R C = map (\<lambda>r. replicate C (y0 - real r * spacing)) [0..<R]"

text \<open>
  Modelled from the spec: the grid of \<^verbatim>\<open>interpolatedMap\<close> bounds the positions it was
  interpolated from; this is the condition for one position.
\<close>

definition covers :: "real \<Rightarrow> real \<Rightarrow> real \<Rightarrow> nat \<Rightarrow> nat \<Rightarrow> real \<times> real \<Rightarrow> bool" where
  "covers x0 y0 spacing R C pos =
     (x0 \<le> fst pos \<and> fst pos \<le> x0 + real (C - 1) * spacing \<and>
      y0 - real (R - 1) * spacing \<le> snd pos \<and> snd pos \<le> y0)"

text \<open>
  A list of rows is a two-dimensional array of shape \<open>(R, C)\<close>.
\<close>

definition has_shape :: "'a list list \<Rightarrow> nat \<Rightarrow> nat \<Rightarrow> bool" where
  "has_shape a R C = (map length a = replicate R C)"

text \<open>
  The grid points under the mask, as a set: what the theorems compare the points
  collected by \<^verbatim>\<open>np.where\<close> with.
\<close>

definition masked_points :: "real list list \<Rightarrow> real list list \<Rightarrow> bool list list \<Rightarrow> (real \<times> real) set" where
  "masked_points x y mask' =
     {(x ! r ! c, y ! r ! c) | r c. r < length mask' \<and> c < length (mask' ! r) \<and> mask' ! r ! c}"

section \<open>Properties of propagateNearfield\<close>

lemma set_plane_not_RuntimeError: "set_plane result i v \<noteq> Inl (RuntimeError m)"
  by (auto simp: set_plane_def broadcast_plane_def broadcast_from_def Let_def
      split: sum.splits list.splits if_splits)

lemma propagate_loop_not_RuntimeError:
  "propagate_loop api A ds is geo result \<noteq> Inl (RuntimeError m)"
proof (induction "is" arbitrary: geo result)
  case Nil
  show ?case by simp
next
  case (Cons i rest)
  show ?case
    using Cons.IH set_plane_not_RuntimeError
    by (auto simp: Let_def split: sum.splits)
qed

text \<open>
  C3: the function raises its RuntimeError ("Wavefront array must be N x N", the
  shape error of the specification) exactly when the array does not have two axes of
  equal length; for a square array it never does, whatever the other arguments are.
\<close>

theorem propagateNearfield_shape_error:
  "(propagateNearfield api A psize' distances energy' = Inl (RuntimeError not_square_message))
   = (\<not> (length (shape A) = 2 \<and> shape A ! 0 = shape A ! 1))"
proof (cases "length (shape A) = 2 \<and> shape A ! 0 = shape A ! 1")
  case False
  then show ?thesis
    by (auto simp: propagateNearfield_def)
next
  case True
  have "propagateNearfield api A psize' distances energy' \<noteq> Inl (RuntimeError not_square_message)"
  proof (cases "as_sequence distances")
    case Nil
    with True show ?thesis
      by (simp add: propagateNearfield_def)
  next
    case (Cons d0 rest)
    with True show ?thesis
      by (simp add: propagateNearfield_def Let_def propagate_loop_not_RuntimeError
          del: upt_Suc)
  qed
  with True show ?thesis
    by simp
qed

lemma length_concat_rows:
  "length (concat (map (\<lambda>i. map (f i) [0..<C]) [0..<R])) = R * C"
  by (induction R) simp_all

lemma map_nth_offset:
  "k + C \<le> length dv \<Longrightarrow> map (\<lambda>j. dv ! (k + j)) [0..<C] = take C (drop k dv)"
  by (rule nth_equalityI) simp_all

lemma concat_rows_take:
  "R * C \<le> length dv \<Longrightarrow>
   concat (map (\<lambda>i. map (\<lambda>j. dv ! (i * C + j)) [0..<C]) [0..<R]) = take (R * C) dv"
proof (induction R)
  case 0
  show ?case by simp
next
  case (Suc R)
  then have le: "R * C + C \<le> length dv" by (simp add: add.commute)
  then have "R * C \<le> length dv" by simp
  with Suc.IH have IH: "concat (map (\<lambda>i. map (\<lambda>j. dv ! (i * C + j)) [0..<C]) [0..<R]) = take (R * C) dv" .
  have "Suc R * C = R * C + C" by simp
  then have "take (Suc R * C) dv = take (R * C) dv @ take C (drop (R * C) dv)"
    by (simp only: take_add)
  with IH map_nth_offset [OF le] show ?case
    by simp
qed

lemma broadcast_from_same:
  assumes "length dv = R * C"
  shows "broadcast_from R C R C dv = Inr dv"
proof -
  have "map (\<lambda>i. map (\<lambda>j. dv ! ((if R = 1 then 0 else i) * C + (if C = 1 then 0 else j))) [0..<C]) [0..<R]
      = map (\<lambda>i. map (\<lambda>j. dv ! (i * C + j)) [0..<C]) [0..<R]"
    by (rule map_cong [OF refl], rule map_cong [OF refl]) auto
  then have "broadcast_from R C R C dv
      = Inr (concat (map (\<lambda>i. map (\<lambda>j. dv ! (i * C + j)) [0..<C]) [0..<R]))"
    by (simp only: broadcast_from_def simp_thms if_True)
  with concat_rows_take [of R C dv] assms show ?thesis
    by simp
qed

lemma broadcast_from_length:
  "broadcast_from R C r c dv = Inr pl \<Longrightarrow> length pl = R * C"
  by (auto simp: broadcast_from_def length_concat_rows split: if_splits)

lemma broadcast_plane_length:
  "broadcast_plane R C v = Inr pl \<Longrightarrow> length pl = R * C"
  by (auto simp: broadcast_plane_def dest: broadcast_from_length split: list.splits)

lemma broadcast_plane_same:
  "shape v = [R, C] \<Longrightarrow> length (data v) = R * C \<Longrightarrow> broadcast_plane R C v = Inr (data v)"
  by (simp add: broadcast_plane_def broadcast_from_same)

lemma broadcast_plane_succeeds:
  "shape v = [R, C] \<Longrightarrow> \<exists>pl. broadcast_plane R C v = Inr pl"
  by (simp add: broadcast_plane_def broadcast_from_def)

lemma set_plane_shape:
  assumes "set_plane result i v = Inr r'" "shape result = [k, R, C]"
    "length (data result) = k * (R * C)" "i < k"
  shows "shape r' = [k, R, C] \<and> length (data r') = k * (R * C)"
proof -
  from assms(1,2) obtain pl where pl: "broadcast_plane R C v = Inr pl"
    and r': "r' = NDArray [k, R, C] (take (i * (R * C)) (data result) @ pl @ drop (i * (R * C) + R * C) (data result))"
    by (auto simp: set_plane_def Let_def split: sum.splits)
  have len: "length pl = R * C" using pl by (rule broadcast_plane_length)
  from \<open>i < k\<close> have "Suc i * (R * C) \<le> k * (R * C)"
    by (intro mult_le_mono1) simp
  then have "i * (R * C) + R * C \<le> k * (R * C)" by (simp add: add.commute)
  with r' len assms(3) show ?thesis
    by simp
qed

lemma propagate_loop_shape:
  assumes "propagate_loop api A ds is g result = Inr r"
    "shape result = [k, R, C]" "length (data result) = k * (R * C)" "\<forall>i\<in>set is. i < k"
  shows "shape r = [k, R, C] \<and> length (data r) = k * (R * C)"
  using assms
proof (induction "is" arbitrary: g result)
  case Nil
  then show ?case by simp
next
  case (Cons i rest)
  let ?g2 = "update api (g\<lparr>p := (p g)\<lparr>distance := ds ! i\<rparr>\<rparr>)"
  from Cons.prems(1) obtain r' where
    sp: "set_plane result i (propagator_fw api ?g2 A) = Inr r'"
    and rest: "propagate_loop api A ds rest ?g2 r' = Inr r"
    by (auto simp: Let_def split: sum.splits)
  from Cons.prems have "i < k" by simp
  from set_plane_shape [OF sp Cons.prems(2,3) this]
  have "shape r' = [k, R, C]" "length (data r') = k * (R * C)" by simp_all
  with Cons.IH [OF rest] Cons.prems(4) show ?case by simp
qed

lemma propagateNearfield_result_shape:
  assumes "propagateNearfield api A psize' distances energy' = Inr res"
  shows "\<exists>N. shape A = [N, N] \<and> shape res = [length (as_sequence distances), N, N] \<and> well_formed res"
proof -
  from assms have sq: "length (shape A) = 2" "shape A ! 0 = shape A ! 1"
    by (auto simp: propagateNearfield_def split: if_splits)
  then obtain N where A: "shape A = [N, N]"
    by (cases "shape A"; cases "tl (shape A)") auto
  from assms sq obtain d0 rest where ds: "as_sequence distances = d0 # rest"
    by (cases "as_sequence distances") (auto simp: propagateNearfield_def)
  let ?k = "length (as_sequence distances)"
  from assms sq ds have loop:
    "propagate_loop api A (as_sequence distances) [0..<?k]
       (Geo api (make_geo_pars api A psize' d0 energy')) (zeros (?k # shape A)) = Inr res"
    by (simp add: propagateNearfield_def Let_def del: upt_Suc)
  have "shape res = [?k, N, N] \<and> length (data res) = ?k * (N * N)"
    by (rule propagate_loop_shape [OF loop]) (simp_all add: zeros_def A)
  with A show ?thesis
    by (simp add: well_formed_def)
qed

lemma set_plane_append:
  assumes "shape result = [k, R, C]" "data result = pre @ post"
    "length pre = j * (R * C)" "R * C \<le> length post"
    "shape v = [R, C]" "length (data v) = R * C"
  shows "set_plane result j v = Inr (NDArray [k, R, C] ((pre @ data v) @ drop (R * C) post))"
  using assms by (simp add: set_plane_def broadcast_plane_same)

lemma propagate_loop_contract:
  assumes con: "geo_contract api nearfield" and pres: "shape_preserving nearfield"
    and A: "shape A = [N, N]" "length (data A) = N * N"
  shows "\<lbrakk>n = k - j; j \<le> k; \<forall>d. (p g)\<lparr>distance := d\<rparr> = base\<lparr>distance := d\<rparr>;
      shape result = [k, N, N]; data result = pre @ post;
      length pre = j * (N * N); length post = (k - j) * (N * N)\<rbrakk> \<Longrightarrow>
    propagate_loop api A ds [j..<k] g result =
      Inr (NDArray [k, N, N]
             (pre @ concat (map (\<lambda>i. data (nearfield (base\<lparr>distance := ds ! i\<rparr>) A)) [j..<k])))"
proof (induction n arbitrary: j g result pre post)
  case 0
  then have "j = k" by simp
  with 0 show ?case
    by (cases result) simp
next
  case (Suc n)
  then have jk: "j < k" by simp
  let ?g1 = "g\<lparr>p := (p g)\<lparr>distance := ds ! j\<rparr>\<rparr>"
  let ?g2 = "update api ?g1"
  let ?out = "nearfield (base\<lparr>distance := ds ! j\<rparr>) A"
  from con have pg2: "p ?g2 = (p g)\<lparr>distance := ds ! j\<rparr>"
    and fw: "propagator_fw api ?g2 A = nearfield ((p g)\<lparr>distance := ds ! j\<rparr>) A"
    by (simp_all add: geo_contract_def)
  from Suc.prems(3) have pj: "(p g)\<lparr>distance := ds ! j\<rparr> = base\<lparr>distance := ds ! j\<rparr>"
    by blast
  from pres A have out: "shape ?out = [N, N]" "length (data ?out) = N * N"
    by (simp_all add: shape_preserving_def)
  from jk have "k - j = Suc (k - Suc j)" by simp
  then have "(k - j) * (N * N) = N * N + (k - Suc j) * (N * N)"
    by (simp only: mult_Suc)
  with Suc.prems(7) have post: "N * N \<le> length post"
    "length (drop (N * N) post) = (k - Suc j) * (N * N)"
    by simp_all
  have sp: "set_plane result j (propagator_fw api ?g2 A) =
      Inr (NDArray [k, N, N] ((pre @ data ?out) @ drop (N * N) post))"
  proof -
    have "nearfield ((p g)\<lparr>distance := ds ! j\<rparr>) A = ?out"
      by (simp only: pj)
    with fw have "propagator_fw api ?g2 A = ?out"
      by (rule trans)
    moreover have "set_plane result j ?out =
        Inr (NDArray [k, N, N] ((pre @ data ?out) @ drop (N * N) post))"
      by (rule set_plane_append [OF Suc.prems(4,5,6) post(1) out])
    ultimately show ?thesis
      by (simp only:)
  qed
  have inv: "\<forall>d. (p ?g2)\<lparr>distance := d\<rparr> = base\<lparr>distance := d\<rparr>"
  proof
    fix d
    have "(p ?g2)\<lparr>distance := d\<rparr> = (p g)\<lparr>distance := d\<rparr>"
      by (simp add: pg2)
    with Suc.prems(3) show "(p ?g2)\<lparr>distance := d\<rparr> = base\<lparr>distance := d\<rparr>"
      by simp
  qed
  have IH: "propagate_loop api A ds [Suc j..<k] ?g2
       (NDArray [k, N, N] ((pre @ data ?out) @ drop (N * N) post)) =
      Inr (NDArray [k, N, N]
             ((pre @ data ?out) @
              concat (map (\<lambda>i. data (nearfield (base\<lparr>distance := ds ! i\<rparr>) A)) [Suc j..<k])))"
  proof (rule Suc.IH [OF _ _ inv])
    show "n = k - Suc j" using Suc.prems(1) by simp
    show "Suc j \<le> k" using jk by simp
    show "shape (NDArray [k, N, N] ((pre @ data ?out) @ drop (N * N) post)) = [k, N, N]" by simp
    show "data (NDArray [k, N, N] ((pre @ data ?out) @ drop (N * N) post)) =
       (pre @ data ?out) @ drop (N * N) post" by simp
    show "length (pre @ data ?out) = Suc j * (N * N)"
      using Suc.prems(6) out(2) by simp
    show "length (drop (N * N) post) = (k - Suc j) * (N * N)" by (rule post(2))
  qed
  from jk have upt: "[j..<k] = j # [Suc j..<k]" by (rule upt_conv_Cons)
  show ?case
    unfolding upt using IH by (simp add: Let_def sp del: upt_Suc)
qed

lemma drop_concat_uniform:
  "\<forall>x\<in>set xs. length x = m \<Longrightarrow> drop (i * m) (concat xs) = concat (drop i xs)"
proof (induction xs arbitrary: i)
  case Nil
  show ?case by simp
next
  case (Cons x xs)
  then show ?case by (cases i) simp_all
qed

lemma take_drop_concat_uniform:
  assumes "\<forall>x\<in>set xs. length x = m" "i < length xs"
  shows "take m (drop (i * m) (concat xs)) = xs ! i"
proof -
  from assms(2) obtain y ys where d: "drop i xs = y # ys" and y: "y = xs ! i"
    by (metis Cons_nth_drop_Suc)
  from assms have "length y = m" by (simp add: y)
  with drop_concat_uniform [OF assms(1), of i] d show ?thesis
    by (simp add: y)
qed

lemma propagateNearfield_contract:
  assumes con: "geo_contract api nearfield" and pres: "shape_preserving nearfield"
    and A: "shape A = [N, N]" "well_formed A"
    and ds: "as_sequence distances = d0 # rest"
  shows "propagateNearfield api A psize' distances energy' =
      Inr (NDArray [length (d0 # rest), N, N]
        (concat (map (\<lambda>i. data (nearfield ((make_geo_pars api A psize' d0 energy')\<lparr>distance := (d0 # rest) ! i\<rparr>) A))
                   [0..<length (d0 # rest)])))"
proof -
  let ?k = "length (d0 # rest)"
  let ?base = "make_geo_pars api A psize' d0 energy'"
  from A have len: "length (data A) = N * N" by (simp add: well_formed_def)
  from con have inv: "\<forall>d. (p (Geo api ?base))\<lparr>distance := d\<rparr> = ?base\<lparr>distance := d\<rparr>"
    by (simp add: geo_contract_def)
  have "propagate_loop api A (d0 # rest) [0..<?k] (Geo api ?base) (zeros (?k # shape A)) =
      Inr (NDArray [?k, N, N]
        ([] @ concat (map (\<lambda>i. data (nearfield (?base\<lparr>distance := (d0 # rest) ! i\<rparr>) A)) [0..<?k])))"
    by (rule propagate_loop_contract [OF con pres A(1) len refl _ inv, where post = "replicate (?k * (N * N)) 0"])
      (simp_all add: zeros_def A(1))
  with A(1) ds show ?thesis
    by (simp add: propagateNearfield_def Let_def del: upt_Suc)
qed

lemma plane_of_concat:
  assumes "\<forall>i<k. length (f i) = N * N" "i < k"
  shows "plane (NDArray [k, N, N] (concat (map f [0..<k]))) i = f i"
proof -
  have "take (N * N) (drop (i * (N * N)) (concat (map f [0..<k]))) = map f [0..<k] ! i"
    by (rule take_drop_concat_uniform) (use assms in auto)
  with assms(2) show ?thesis
    by (simp add: plane_def)
qed

lemma set_plane_succeeds:
  assumes "shape result = [k, R, C]" "shape v = [R, C]"
  shows "\<exists>r'. set_plane result i v = Inr r' \<and> shape r' = [k, R, C]"
  using assms broadcast_plane_succeeds [OF assms(2)]
  by (auto simp: set_plane_def)

lemma propagate_loop_succeeds:
  assumes "\<forall>g. shape (propagator_fw api g A) = [N, N]"
  shows "shape result = [k, N, N] \<Longrightarrow> \<exists>r. propagate_loop api A ds is g result = Inr r"
proof (induction "is" arbitrary: g result)
  case Nil
  show ?case by simp
next
  case (Cons i rest)
  let ?g2 = "update api (g\<lparr>p := (p g)\<lparr>distance := ds ! i\<rparr>\<rparr>)"
  from assms have "shape (propagator_fw api ?g2 A) = [N, N]" by blast
  from set_plane_succeeds [OF Cons.prems this]
  obtain r' where r': "set_plane result i (propagator_fw api ?g2 A) = Inr r'" "shape r' = [k, N, N]"
    by blast
  from Cons.IH [OF r'(2)] obtain r where "propagate_loop api A ds rest ?g2 r' = Inr r"
    by blast
  with r'(1) show ?case
    by (simp add: Let_def)
qed

lemma propagateNearfield_succeeds:
  assumes "shape A = [N, N]" "as_sequence distances = d0 # rest"
    "\<forall>g. shape (propagator_fw api g A) = shape A"
  shows "\<exists>res. propagateNearfield api A psize' distances energy' = Inr res"
proof -
  from assms(1,3) have "\<forall>g. shape (propagator_fw api g A) = [N, N]" by simp
  from propagate_loop_succeeds [OF this, of "zeros (length (d0 # rest) # shape A)" "length (d0 # rest)"]
  show ?thesis
    using assms(1,2) by (simp add: propagateNearfield_def Let_def zeros_def del: upt_Suc)
qed

lemma make_geo_pars_distance:
  "(make_geo_pars api A psize' d0 energy')\<lparr>distance := d\<rparr> = make_geo_pars api A psize' d energy'"
  by (simp add: make_geo_pars_def)

lemma scaling_contract: "geo_contract scaling_ptypy scaling_nearfield"
  by (simp add: geo_contract_def scaling_ptypy_def scaling_nearfield_def)

lemma scaling_preserving: "shape_preserving scaling_nearfield"
  by (simp add: shape_preserving_def scaling_nearfield_def)

lemma scaling_fw_shape: "\<forall>g. shape (propagator_fw scaling_ptypy g A) = shape A"
  by (simp add: scaling_ptypy_def)

lemma exp_contract: "geo_contract exp_ptypy exp_nearfield"
  by (simp add: geo_contract_def exp_ptypy_def exp_nearfield_def)

lemma exp_preserving: "shape_preserving exp_nearfield"
  by (simp add: shape_preserving_def exp_nearfield_def)


text \<open>
  C4: for a square N-by-N wavefront and a non-empty list of k distances the function
  returns an array of shape (k, N, N), and its plane \<open>i\<close> is the N-by-N field that the
  geometry propagates to the distance at index \<open>i\<close> (with the energy, pixel size and
  array size of the call). What the proof assumes of ptypy is \<open>geo_contract\<close> and that
  the propagation returns a field of the shape of its input.
\<close>

theorem propagateNearfield_fields:
  assumes "geo_contract api nearfield" "shape_preserving nearfield"
    "shape A = [N, N]" "well_formed A" "distances \<noteq> []"
  shows "\<exists>res. propagateNearfield api A psize' (Sequence distances) energy' = Inr res \<and>
      shape res = [length distances, N, N] \<and> well_formed res \<and>
      (\<forall>i<length distances.
         plane res i = data (nearfield (make_geo_pars api A psize' (distances ! i) energy') A) \<and>
         shape (nearfield (make_geo_pars api A psize' (distances ! i) energy') A) = [N, N])"
proof -
  from assms(5) obtain d0 rest where ds: "distances = d0 # rest"
    by (cases distances) auto
  let ?f = "\<lambda>i. data (nearfield (make_geo_pars api A psize' (distances ! i) energy') A)"
  let ?res = "NDArray [length distances, N, N] (concat (map ?f [0..<length distances]))"
  have eq: "propagateNearfield api A psize' (Sequence distances) energy' = Inr ?res"
    using propagateNearfield_contract [OF assms(1-4), of "Sequence distances" d0 rest psize' energy']
    by (simp add: as_sequence_def ds make_geo_pars_distance del: upt_Suc)
  from assms(2,3,4) have len: "\<forall>i<length distances. length (?f i) = N * N"
    and sh: "\<forall>i<length distances.
      shape (nearfield (make_geo_pars api A psize' (distances ! i) energy') A) = [N, N]"
    by (simp_all add: shape_preserving_def well_formed_def)
  from propagateNearfield_result_shape [OF eq] assms(3)
  have "shape ?res = [length distances, N, N]" "well_formed ?res"
    by (simp_all add: as_sequence_def)
  moreover have "\<forall>i<length distances. plane ?res i = ?f i"
    using plane_of_concat [OF len] by blast
  ultimately show ?thesis
    using eq sh by blast
qed

theorem propagateNearfield_fields_witness:
  "geo_contract scaling_ptypy scaling_nearfield \<and> shape_preserving scaling_nearfield \<and>
   shape (NDArray [2, 2] [1, 2, 3, 4]) = [2, 2] \<and> well_formed (NDArray [2, 2] [1, 2, 3, 4]) \<and>
   [0, 1] \<noteq> ([] :: real list) \<and>
   (\<exists>res. propagateNearfield scaling_ptypy (NDArray [2, 2] [1, 2, 3, 4]) 1 (Sequence [0, 1]) 10 = Inr res \<and>
      shape res = [2, 2, 2] \<and> well_formed res \<and>
      plane res 0 = [1, 2, 3, 4] \<and> plane res 1 = [2, 4, 6, 8])"
proof -
  have wf: "well_formed (NDArray [2, 2] [1, 2, 3, 4])"
    by (simp add: well_formed_def)
  from propagateNearfield_fields [OF scaling_contract scaling_preserving _ wf,
      where N = 2 and distances = "[0, 1]" and psize' = 1 and energy' = 10]
  obtain res where res:
    "propagateNearfield scaling_ptypy (NDArray [2, 2] [1, 2, 3, 4]) 1 (Sequence [0, 1]) 10 = Inr res"
    "shape res = [2, 2, 2]" "well_formed res"
    "\<forall>i<2. plane res i =
       data (scaling_nearfield (make_geo_pars scaling_ptypy (NDArray [2, 2] [1, 2, 3, 4]) 1 ([0, 1] ! i) 10)
              (NDArray [2, 2] [1, 2, 3, 4]))"
    by auto
  from res(4) have "plane res 0 = [1, 2, 3, 4]" "plane res 1 = [2, 4, 6, 8]"
    by (simp_all add: scaling_nearfield_def make_geo_pars_def)
  with res(1-3) wf scaling_contract scaling_preserving show ?thesis
    by auto
qed

text \<open>
  C5: with the same assumptions on ptypy, the two planes of the result for the
  distances \<open>[d1, d2]\<close> are the single planes of the results for \<open>[d1]\<close> and for \<open>[d2]\<close>:
  the geometry object that the loop reuses carries nothing from one distance to the
  next, nor from the distance it was built with.
\<close>

theorem propagateNearfield_independent:
  assumes "geo_contract api nearfield" "shape_preserving nearfield"
    "shape A = [N, N]" "well_formed A"
  shows "\<exists>r r1 r2.
      propagateNearfield api A psize' (Sequence [d1, d2]) energy' = Inr r \<and>
      propagateNearfield api A psize' (Sequence [d1]) energy' = Inr r1 \<and>
      propagateNearfield api A psize' (Sequence [d2]) energy' = Inr r2 \<and>
      plane r 0 = plane r1 0 \<and> plane r 1 = plane r2 0"
proof -
  let ?out = "\<lambda>d. data (nearfield (make_geo_pars api A psize' d energy') A)"
  from assms(2,3,4) have len: "\<And>d. length (?out d) = N * N"
    by (simp add: shape_preserving_def well_formed_def)
  have both: "propagateNearfield api A psize' (Sequence [d1, d2]) energy' =
      Inr (NDArray [2, N, N] (?out d1 @ ?out d2))"
    using propagateNearfield_contract [OF assms, of "Sequence [d1, d2]" d1 "[d2]" psize' energy']
    by (simp add: as_sequence_def make_geo_pars_distance)
  have one: "propagateNearfield api A psize' (Sequence [d]) energy' =
      Inr (NDArray [1, N, N] (?out d))" for d
    using propagateNearfield_contract [OF assms, of "Sequence [d]" d "[]" psize' energy']
    by (simp add: as_sequence_def make_geo_pars_distance)
  have "plane (NDArray [2, N, N] (?out d1 @ ?out d2)) 0 = plane (NDArray [1, N, N] (?out d1)) 0"
    "plane (NDArray [2, N, N] (?out d1 @ ?out d2)) 1 = plane (NDArray [1, N, N] (?out d2)) 0"
    by (simp_all add: plane_def len)
  with both one [of d1] one [of d2] show ?thesis
    by blast
qed

theorem propagateNearfield_independent_witness:
  "geo_contract scaling_ptypy scaling_nearfield \<and> shape_preserving scaling_nearfield \<and>
   shape (NDArray [2, 2] [1, 2, 3, 4]) = [2, 2] \<and> well_formed (NDArray [2, 2] [1, 2, 3, 4]) \<and>
   (\<exists>r r1 r2.
      propagateNearfield scaling_ptypy (NDArray [2, 2] [1, 2, 3, 4]) 1 (Sequence [2, 3]) 10 = Inr r \<and>
      propagateNearfield scaling_ptypy (NDArray [2, 2] [1, 2, 3, 4]) 1 (Sequence [2]) 10 = Inr r1 \<and>
      propagateNearfield scaling_ptypy (NDArray [2, 2] [1, 2, 3, 4]) 1 (Sequence [3]) 10 = Inr r2 \<and>
      plane r 0 = plane r1 0 \<and> plane r 1 = plane r2 0)"
proof -
  have wf: "well_formed (NDArray [2, 2] [1, 2, 3, 4])"
    by (simp add: well_formed_def)
  from propagateNearfield_independent [OF scaling_contract scaling_preserving _ wf,
      where N = 2 and psize' = 1 and ?d1.0 = 2 and ?d2.0 = 3 and energy' = 10]
    wf scaling_contract scaling_preserving
  show ?thesis by simp
qed

text \<open>
  C6, as amended: the function does not check the energy or the pixel size and raises
  no error of its own for them. It writes both values as they are given (the pixel
  size also as the resolution) over the defaults of ptypy and hands them to the
  geometry: for a square wavefront and a non-empty list of distances, with a geometry
  of ptypy that takes the parameters (\<open>geo_contract\<close>, the propagation returning a field
  of the shape of its input), the call returns, and every plane of the result is the
  field propagated with exactly the given energy and pixel size, whatever their sign.
\<close>

theorem propagateNearfield_no_parameter_check:
  assumes "geo_contract api nearfield" "shape_preserving nearfield"
    "shape A = [N, N]" "well_formed A" "as_sequence distances = d0 # rest"
  shows "\<exists>res. propagateNearfield api A psize' distances energy' = Inr res \<and>
      (\<forall>i<length (d0 # rest).
         plane res i =
           data (nearfield ((DEFAULT api)\<lparr>energy := energy', distance := (d0 # rest) ! i,
                    resolution := psize', psize := psize', shape_par := N,
                    propagation := ''nearfield''\<rparr>) A))"
proof -
  let ?k = "length (d0 # rest)"
  let ?f = "\<lambda>i. data (nearfield ((DEFAULT api)\<lparr>energy := energy', distance := (d0 # rest) ! i,
      resolution := psize', psize := psize', shape_par := N, propagation := ''nearfield''\<rparr>) A)"
  have pars: "(make_geo_pars api A psize' d0 energy')\<lparr>distance := d\<rparr> =
      (DEFAULT api)\<lparr>energy := energy', distance := d, resolution := psize', psize := psize',
        shape_par := N, propagation := ''nearfield''\<rparr>" for d
    using assms(3) by (simp add: make_geo_pars_def)
  have eq: "propagateNearfield api A psize' distances energy' =
      Inr (NDArray [?k, N, N] (concat (map ?f [0..<?k])))"
    using propagateNearfield_contract [OF assms, of psize' energy']
    by (simp only: pars)
  from assms(2,3,4) have len: "\<forall>i<?k. length (?f i) = N * N"
    by (simp add: shape_preserving_def well_formed_def)
  have "\<forall>i<?k. plane (NDArray [?k, N, N] (concat (map ?f [0..<?k]))) i = ?f i"
    using plane_of_concat [OF len] by blast
  with eq show ?thesis
    by blast
qed

theorem propagateNearfield_no_parameter_check_witness:
  "geo_contract exp_ptypy exp_nearfield \<and> shape_preserving exp_nearfield \<and>
   shape (NDArray [1, 1] [1]) = [1, 1] \<and> well_formed (NDArray [1, 1] [1]) \<and>
   as_sequence (Sequence [1]) = 1 # [] \<and>
   (\<exists>res. propagateNearfield exp_ptypy (NDArray [1, 1] [1]) (- 2) (Sequence [1]) (- 1) = Inr res \<and>
      plane res 0 = [of_real (exp 2)])"
proof -
  have sh: "shape (NDArray [1, 1] [1]) = [1, 1]" by simp
  have wf: "well_formed (NDArray [1, 1] [1])" by (simp add: well_formed_def)
  have s: "as_sequence (Sequence [1]) = 1 # []" by (simp add: as_sequence_def)
  from propagateNearfield_no_parameter_check [OF exp_contract exp_preserving sh wf s, where psize' = "- 2" and energy' = "- 1"]
  obtain res where res:
    "propagateNearfield exp_ptypy (NDArray [1, 1] [1]) (- 2) (Sequence [1]) (- 1) = Inr res"
    "plane res 0 = data (exp_nearfield ((DEFAULT exp_ptypy)\<lparr>energy := - 1, distance := [1] ! 0,
        resolution := - 2, psize := - 2, shape_par := 1, propagation := ''nearfield''\<rparr>)
        (NDArray [1, 1] [1]))"
    by auto
  from res(2) have "plane res 0 = [of_real (exp 2)]"
    by (simp add: exp_nearfield_def)
  with res(1) have "\<exists>res. propagateNearfield exp_ptypy (NDArray [1, 1] [1]) (- 2) (Sequence [1]) (- 1) = Inr res \<and>
      plane res 0 = [of_real (exp 2)]"
    by blast
  with exp_contract exp_preserving sh wf s show ?thesis
    by (intro conjI)
qed

text \<open>
  C6 as stated fails: with an energy of \<open>-1\<close> and a pixel size of \<open>-2\<close> the function
  returns a field, and the field is the one propagated with these two values (the
  factor is the exponential of \<open>1 * (-1) * (-2)\<close>), not with the defaults.
\<close>

theorem propagateNearfield_accepts_negative_energy:
  "propagateNearfield exp_ptypy (NDArray [1, 1] [1]) (- 2) (Sequence [1]) (- 1) =
     Inr (NDArray [1, 1, 1] [of_real (exp 2)])"
  by (simp add: propagateNearfield_def as_sequence_def make_geo_pars_def zeros_def Let_def
      exp_ptypy_def set_plane_def broadcast_plane_def broadcast_from_def)



text \<open>
  C10: a single number as the distance is treated as the list holding that number;
  for a square N-by-N wavefront (and a propagator that returns fields of the shape of
  its input) the call does not fail and returns an array of shape (1, N, N).
\<close>

theorem propagateNearfield_scalar_distance:
  assumes "shape A = [N, N]" "\<forall>g. shape (propagator_fw api g A) = shape A"
  shows "propagateNearfield api A psize' (Scalar d) energy' =
        propagateNearfield api A psize' (Sequence [d]) energy' \<and>
      (\<exists>res. propagateNearfield api A psize' (Scalar d) energy' = Inr res \<and>
          shape res = [1, N, N] \<and> well_formed res)"
proof -
  have eq: "propagateNearfield api A psize' (Scalar d) energy' =
      propagateNearfield api A psize' (Sequence [d]) energy'"
    by (simp add: propagateNearfield_def as_sequence_def)
  have "as_sequence (Scalar d) = d # []" by (simp add: as_sequence_def)
  from propagateNearfield_succeeds [OF assms(1) this assms(2)]
  obtain res where res: "propagateNearfield api A psize' (Scalar d) energy' = Inr res"
    by blast
  from propagateNearfield_result_shape [OF res] assms(1)
  have "shape res = [1, N, N] \<and> well_formed res"
    by (simp add: as_sequence_def)
  with eq res show ?thesis by blast
qed

theorem propagateNearfield_scalar_distance_witness:
  "shape (NDArray [2, 2] [1, 2, 3, 4]) = [2, 2] \<and>
   (\<forall>g. shape (propagator_fw scaling_ptypy g (NDArray [2, 2] [1, 2, 3, 4])) = shape (NDArray [2, 2] [1, 2, 3, 4])) \<and>
   propagateNearfield scaling_ptypy (NDArray [2, 2] [1, 2, 3, 4]) 1 (Scalar 2) 10 =
     propagateNearfield scaling_ptypy (NDArray [2, 2] [1, 2, 3, 4]) 1 (Sequence [2]) 10 \<and>
   (\<exists>res. propagateNearfield scaling_ptypy (NDArray [2, 2] [1, 2, 3, 4]) 1 (Scalar 2) 10 = Inr res \<and>
      shape res = [1, 2, 2] \<and> well_formed res)"
proof -
  have sh: "shape (NDArray [2, 2] [1, 2, 3, 4]) = [2, 2]" by simp
  note fw = scaling_fw_shape [of "NDArray [2, 2] [1, 2, 3, 4]"]
  note t = propagateNearfield_scalar_distance [OF sh fw,
      where psize' = 1 and d = 2 and energy' = 10]
  show ?thesis
    by (intro conjI sh fw conjunct1 [OF t] conjunct2 [OF t])
qed

section \<open>Properties of fft and ifft\<close>

lemma length_roll: "length (roll s xs) = length xs"
  by (simp add: roll_def)

lemma set_roll: "set (roll s xs) = set xs"
  by (simp add: roll_def)

lemma roll_map: "roll s (map f xs) = map f (roll s xs)"
  by (simp add: roll_def rotate_map)

lemma roll_inverse: "roll (- s) (roll s xs) = xs"
proof (cases "xs = []")
  case True
  then show ?thesis by (simp add: roll_def)
next
  case False
  let ?n = "int (length xs)"
  from False have n: "0 < ?n" by simp
  have "(nat (s mod ?n) + nat ((- s) mod ?n)) mod length xs = nat ((s mod ?n + (- s) mod ?n) mod ?n)"
    using n by (simp add: nat_add_distrib nat_mod_distrib)
  also have "(s mod ?n + (- s) mod ?n) mod ?n = (s + - s) mod ?n"
    by (rule mod_add_eq)
  finally have "(nat (s mod ?n) + nat ((- s) mod ?n)) mod length xs = 0"
    by simp
  then show ?thesis
    by (simp add: roll_def rotate_rotate)
qed

lemma nth_roll_half:
  assumes "0 < length xs"
  shows "roll (int (length xs div 2)) xs ! (length xs div 2) = xs ! 0"
proof -
  let ?n = "int (length xs)" and ?h = "length xs div 2"
  from assms have h: "?h < length xs" by simp
  have "(nat ((- int ?h) mod ?n) + ?h) mod length xs = nat (((- int ?h) mod ?n + int ?h) mod ?n)"
    using assms by (simp add: nat_add_distrib nat_mod_distrib)
  also have "((- int ?h) mod ?n + int ?h) mod ?n = (- int ?h + int ?h) mod ?n"
    by (simp add: mod_add_left_eq)
  finally have "(nat ((- int ?h) mod ?n) + ?h) mod length xs = 0"
    by simp
  with h show ?thesis
    by (simp add: roll_def nth_rotate)
qed

lemma length_concat_uniform:
  "\<forall>x\<in>set xs. length x = m \<Longrightarrow> length (concat xs) = length xs * m"
  by (induction xs) simp_all

lemma blocks_concat:
  assumes "\<forall>x\<in>set xs. length x = m"
  shows "blocks (length xs) m (concat xs) = xs"
  by (rule nth_equalityI) (simp_all add: blocks_def take_drop_concat_uniform [OF assms])

lemma concat_blocks: "n * m \<le> length d \<Longrightarrow> concat (blocks n m d) = take (n * m) d"
proof (induction n)
  case 0
  show ?case by (simp add: blocks_def)
next
  case (Suc n)
  then have "concat (blocks n m d) = take (n * m) d" by simp
  moreover have "Suc n * m = n * m + m" by simp
  then have "take (Suc n * m) d = take (n * m) d @ take m (drop (n * m) d)"
    by (simp only: take_add)
  ultimately show ?case
    by (simp add: blocks_def)
qed

lemma length_blocks: "length (blocks n m d) = n"
  by (simp add: blocks_def)

lemma blocks_uniform:
  assumes "length d = n * m"
  shows "\<forall>b\<in>set (blocks n m d). length b = m"
proof
  fix b assume "b \<in> set (blocks n m d)"
  then obtain i where i: "i < n" and b: "b = take m (drop (i * m) d)"
    by (auto simp: blocks_def)
  from i have "Suc i * m \<le> n * m" by (intro mult_le_mono1) simp
  then have "m \<le> n * m - i * m" by simp
  with assms show "length b = m" by (simp add: b)
qed

lemma length_roll_axes:
  "length d = prod_list sh \<Longrightarrow> length (roll_axes s sh d) = length d"
proof (induction sh arbitrary: d)
  case Nil
  show ?case by simp
next
  case (Cons n sh)
  let ?m = "prod_list sh"
  from Cons.prems have len: "length d = n * ?m" by simp
  have "\<forall>b\<in>set (roll (s n) (map (roll_axes s sh) (blocks n ?m d))). length b = ?m"
    using blocks_uniform [OF len] Cons.IH by (auto simp: set_roll)
  from length_concat_uniform [OF this] len show ?case
    by (simp add: length_roll length_blocks)
qed

lemma roll_axes_inverse:
  "length d = prod_list sh \<Longrightarrow> roll_axes (\<lambda>n. - s n) sh (roll_axes s sh d) = d"
proof (induction sh arbitrary: d)
  case Nil
  show ?case by simp
next
  case (Cons n sh)
  let ?m = "prod_list sh"
  let ?bs = "blocks n ?m d"
  let ?ys = "roll (s n) (map (roll_axes s sh) ?bs)"
  from Cons.prems have len: "length d = n * ?m" by simp
  note uni = blocks_uniform [OF len]
  have ys_uni: "\<forall>b\<in>set ?ys. length b = ?m"
    using uni by (auto simp: set_roll length_roll_axes)
  have ys_len: "length ?ys = n"
    by (simp add: length_roll length_blocks)
  have "blocks n ?m (concat ?ys) = ?ys"
    using blocks_concat [OF ys_uni] ys_len by simp
  moreover have "map (roll_axes (\<lambda>n. - s n) sh) ?ys = roll (s n) ?bs"
  proof -
    have "map (roll_axes (\<lambda>n. - s n) sh) (map (roll_axes s sh) ?bs) = ?bs"
      using uni Cons.IH by (simp add: map_idI)
    then show ?thesis
      by (simp only: roll_map [symmetric])
  qed
  moreover have "concat ?bs = d"
    using concat_blocks [of n ?m d] len by simp
  ultimately show ?case
    by (simp add: roll_inverse)
qed

lemma ifftshift_fftshift:
  "well_formed b \<Longrightarrow> ifftshift (fftshift b) = b"
  using roll_axes_inverse [of "data b" "shape b" "\<lambda>n. int (n div 2)"]
  by (cases b) (simp add: well_formed_def ifftshift_def fftshift_def)

lemma roll_axes_single:
  assumes "length b = C"
  shows "roll_axes s [C] b = roll (s C) b"
proof -
  have "blocks C 1 b = map (\<lambda>x. [x]) b"
    using assms by (intro nth_equalityI) (simp_all add: blocks_def take_Suc_conv_app_nth)
  moreover have "roll_axes s [] = (\<lambda>d :: 'a list. d)"
    by (rule ext) simp
  ultimately have "roll_axes s [C] b = concat (map (\<lambda>x. [x]) (roll (s C) b))"
    by (simp add: roll_map)
  then show ?thesis by simp
qed

lemma nth_concat_uniform:
  assumes "\<forall>x\<in>set xs. length x = m" "i < length xs" "j < m"
  shows "concat xs ! (i * m + j) = xs ! i ! j"
proof -
  have "xs ! i ! j = take m (drop (i * m) (concat xs)) ! j"
    by (simp only: take_drop_concat_uniform [OF assms(1,2)])
  also have "\<dots> = concat xs ! (i * m + j)"
  proof -
    from assms(2) have "Suc i * m \<le> length xs * m" by (intro mult_le_mono1) simp
    with assms(3) have "i * m + j < length (concat xs)"
      by (simp add: length_concat_uniform [OF assms(1)])
    with assms(3) show ?thesis by simp
  qed
  finally show ?thesis by simp
qed

lemma fftshift_center:
  assumes "shape b = [R, C]" "well_formed b" "0 < R" "0 < C"
  shows "data (fftshift b) ! (R div 2 * C + C div 2) = data b ! 0"
proof -
  let ?s = "\<lambda>n. int (n div 2)"
  let ?bs = "blocks R C (data b)"
  let ?rows = "map (roll_axes ?s [C]) ?bs"
  from assms(1,2) have len: "length (data b) = R * C" by (simp add: well_formed_def)
  note uni = blocks_uniform [OF len]
  have rows_uni: "\<forall>r\<in>set (roll (?s R) ?rows). length r = C"
  proof
    fix r assume "r \<in> set (roll (?s R) ?rows)"
    then obtain r' where r': "r' \<in> set ?bs" and r: "r = roll_axes ?s [C] r'"
      by (auto simp: set_roll)
    from uni r' have "length r' = prod_list [C]" by simp
    from length_roll_axes [OF this] uni r' show "length r = C"
      by (simp only: r)
  qed
  have rows_len: "length ?rows = R" by (simp add: length_blocks)
  from assms(3,4) have hR: "R div 2 < R" and hC: "C div 2 < C" by simp_all
  have "data (fftshift b) = concat (roll (?s R) ?rows)"
    using assms(1) by (simp add: fftshift_def)
  also have "\<dots> ! (R div 2 * C + C div 2) = roll (?s R) ?rows ! (R div 2) ! (C div 2)"
    by (rule nth_concat_uniform [OF rows_uni _ hC]) (simp add: length_roll length_blocks hR)
  also have "roll (?s R) ?rows ! (R div 2) = ?rows ! 0"
    using nth_roll_half [of ?rows] assms(3) by (simp add: length_blocks)
  also have "?rows ! 0 = roll (?s C) (?bs ! 0)"
  proof -
    from assms(3) have "?bs ! 0 \<in> set ?bs" by (simp add: length_blocks)
    with uni have "length (?bs ! 0) = C" by blast
    from roll_axes_single [OF this] assms(3) show ?thesis
      by (simp add: length_blocks)
  qed
  also have "roll (?s C) (?bs ! 0) ! (C div 2) = ?bs ! 0 ! 0"
  proof -
    from assms(3) have "?bs ! 0 \<in> set ?bs" by (simp add: length_blocks)
    with uni have l: "length (?bs ! 0) = C" by blast
    from nth_roll_half [of "?bs ! 0"] assms(4) l show ?thesis by simp
  qed
  also have "?bs ! 0 ! 0 = data b ! 0"
    using assms(3,4) by (simp add: blocks_def)
  finally show ?thesis .
qed

text \<open>
  C8: \<open>fft\<close> shifts after the forward transform and \<open>ifft\<close> shifts back before the
  inverse transform, and the two shifts cancel on arrays of every shape, also with axes
  of odd length. So for transforms of pyfftw that invert each other (as they do in
  exact arithmetic) \<open>ifft (fft a)\<close> is \<open>a\<close>, and in the output of \<open>fft\<close> on an array of
  shape (R, C) the element that the transform puts at index (0, 0), the zero frequency,
  sits at the centre (R div 2, C div 2).
\<close>

theorem ifft_fft:
  assumes "well_formed (fftn a)" "ifftn (fftn a) = a"
  shows "ifft ifftn (fft fftn a) = a \<and>
    (\<forall>R C. shape (fftn a) = [R, C] \<and> 0 < R \<and> 0 < C \<longrightarrow>
       data (fft fftn a) ! (R div 2 * C + C div 2) = data (fftn a) ! 0)"
  using assms
  by (simp add: ifft_def fft_def ifftshift_fftshift fftshift_center)

theorem ifft_fft_witness:
  "well_formed (scale_array 2 (NDArray [2, 3] [1, 2, 3, 4, 5, 6])) \<and>
   scale_array (1 / 2) (scale_array 2 (NDArray [2, 3] [1, 2, 3, 4, 5, 6])) = NDArray [2, 3] [1, 2, 3, 4, 5, 6] \<and>
   ifft (scale_array (1 / 2)) (fft (scale_array 2) (NDArray [2, 3] [1, 2, 3, 4, 5, 6])) =
     NDArray [2, 3] [1, 2, 3, 4, 5, 6] \<and>
   data (fft (scale_array 2) (NDArray [2, 3] [1, 2, 3, 4, 5, 6])) ! 4 = 2"
proof -
  have wf: "well_formed (scale_array 2 (NDArray [2, 3] [1, 2, 3, 4, 5, 6]))"
    by (simp add: well_formed_def scale_array_def)
  have inv: "scale_array (1 / 2) (scale_array 2 (NDArray [2, 3] [1, 2, 3, 4, 5, 6])) =
      NDArray [2, 3] [1, 2, 3, 4, 5, 6]"
    by (simp add: scale_array_def)
  note t = ifft_fft [of "scale_array 2" "NDArray [2, 3] [1, 2, 3, 4, 5, 6]" "scale_array (1 / 2)", OF wf inv]
  from conjunct2 [OF t] have "data (fft (scale_array 2) (NDArray [2, 3] [1, 2, 3, 4, 5, 6])) ! (2 div 2 * 3 + 3 div 2)
      = data (scale_array 2 (NDArray [2, 3] [1, 2, 3, 4, 5, 6])) ! 0"
    by (simp add: scale_array_def)
  then have "data (fft (scale_array 2) (NDArray [2, 3] [1, 2, 3, 4, 5, 6])) ! 4 = 2"
    by (simp add: scale_array_def)
  with wf inv conjunct1 [OF t] show ?thesis
    by (intro conjI)
qed

section \<open>Properties of the signal of a region of interest\<close>

text \<open>
  C2, as amended: when the two indices nearest to the bounds coincide, the window
  \<^verbatim>\<open>lower:upper\<close> is empty. No error is raised (the axis is not empty), and the value for
  every position is the mean of an empty row, \<open>nan\<close>, not the value of the channel at
  the index.
\<close>

theorem updateMap_average_collapsed_window:
  assumes "xvector \<noteq> []" "nearest_index xvector lowerval = nearest_index xvector upperval"
  shows "updateMap_average (Some (lowerval, upperval)) data1d xvector =
      Inr (replicate (length data1d) NaN)"
proof -
  from assms(1) obtain k where k: "nearest_index xvector upperval = Inr k"
    by (simp add: nearest_index_def argmin_def)
  with assms(2) have k': "nearest_index xvector lowerval = Inr k" by simp
  have "map (\<lambda>row. mean (slice k k row)) data1d = replicate (length data1d) NaN"
    by (simp add: slice_def mean_def map_replicate_const)
  then show ?thesis
    by (simp add: updateMap_average_def k k')
qed

theorem updateMap_average_collapsed_window_witness:
  "[0, 1, 2] \<noteq> ([] :: real list) \<and>
   nearest_index [0, 1, 2] (3 / 4) = nearest_index [0, 1, 2] (5 / 4) \<and>
   updateMap_average (Some (3 / 4, 5 / 4)) [[1, 2, 3], [4, 5, 6]] [0, 1, 2] = Inr [NaN, NaN]"
proof -
  have ne: "[0, 1, 2] \<noteq> ([] :: real list)" by simp
  have eq: "nearest_index [0, 1, 2] (3 / 4) = nearest_index [0, 1, 2] (5 / 4)"
    by (simp add: nearest_index_def argmin_def)
  from updateMap_average_collapsed_window [OF ne eq, of "[[1, 2, 3], [4, 5, 6]]"]
  have "updateMap_average (Some (3 / 4, 5 / 4)) [[1, 2, 3], [4, 5, 6]] [0, 1, 2] = Inr [NaN, NaN]"
    by (simp add: numeral_2_eq_2)
  with ne eq show ?thesis by (intro conjI)
qed

text \<open>
  C2 as stated fails: with the axis \<open>[0, 1, 2]\<close> and both bounds at 1 the two indices
  are 1, the single-column mean of the row \<open>[1, 2, 3]\<close> is 2, and the function returns
  \<open>nan\<close>.
\<close>

theorem updateMap_average_not_single_column:
  "nearest_index [0, 1, 2] 1 = Inr 1 \<and>
   updateMap_average (Some (1, 1)) [[1, 2, 3]] [0, 1, 2] = Inr [NaN] \<and>
   single_column_mean [[1, 2, 3]] 1 = [Finite 2]"
proof -
  have nearest: "nearest_index [0, 1, 2] 1 = Inr 1"
    by (simp add: nearest_index_def argmin_def)
  have average: "updateMap_average (Some (1, 1)) [[1, 2, 3]] [0, 1, 2] = Inr [NaN]"
    by (simp add: updateMap_average_def nearest slice_def mean_def)
  have single: "single_column_mean [[1, 2, 3]] 1 = [Finite 2]"
    by (simp add: single_column_mean_def mean_def)
  show ?thesis
    by (intro conjI nearest average single)
qed

section \<open>Properties of the positions under a mask\<close>

lemma has_shape_length: "has_shape a R C \<Longrightarrow> length a = R"
proof -
  assume "has_shape a R C"
  then have "length (map length a) = length (replicate R C)"
    by (simp only: has_shape_def)
  then show ?thesis by simp
qed

lemma has_shape_row: "has_shape a R C \<Longrightarrow> r < R \<Longrightarrow> length (a ! r) = C"
proof -
  assume h: "has_shape a R C" and r: "r < R"
  from h have "map length a ! r = replicate R C ! r"
    by (simp only: has_shape_def)
  with r has_shape_length [OF h] show ?thesis by simp
qed

lemma set_where_mask:
  "set (where_mask mask') = {(r, c). r < length mask' \<and> c < length (mask' ! r) \<and> mask' ! r ! c}"
  by (auto simp: where_mask_def)

lemma take_points_same_shape:
  assumes "has_shape a R C" "has_shape mask' R C"
  shows "take_points a (where_mask mask') = Inr (map (\<lambda>(r, c). a ! r ! c) (where_mask mask'))"
proof -
  have "list_all (\<lambda>(r, c). r < length a \<and> c < length (a ! r)) (where_mask mask')"
    using assms
    by (auto simp: list_all_iff set_where_mask has_shape_length has_shape_row)
  then show ?thesis by (simp add: take_points_def)
qed

lemma pointSpacing2_value:
  assumes "has_shape x R C" "has_shape y R C" "2 \<le> R" "2 \<le> C"
  shows "pointSpacing2 x y = Inr ((x ! 0 ! 1 - x ! 0 ! 0)\<^sup>2 + (y ! 0 ! 0 - y ! 1 ! 0)\<^sup>2)"
  using assms has_shape_row [OF assms(1), of 0] has_shape_row [OF assms(2), of 0]
    has_shape_row [OF assms(2), of 1]
  by (simp add: pointSpacing2_def get2_def has_shape_length)

lemma positions_loop_filter:
  assumes "pts \<noteq> []"
  shows "positions_loop pts sp positions is acc =
    Inr (acc @ filter (\<lambda>i. min_list (map (dist2 (positions ! i)) pts) < sp) is)"
  using assms by (induction "is" arbitrary: acc) (simp_all add: min_dist2_def)

lemma mask_is_empty_iff: "mask_is_empty mask' = (where_mask mask' = [])"
proof -
  have "mask_is_empty mask' = (\<forall>row\<in>set mask'. \<forall>b\<in>set row. \<not> b)"
    by (simp add: mask_is_empty_def filter_empty_conv)
  also have "\<dots> = (\<forall>r<length mask'. \<forall>c<length (mask' ! r). \<not> mask' ! r ! c)"
    by (simp only: all_set_conv_all_nth)
  also have "\<dots> = (set (where_mask mask') = {})"
    unfolding set_where_mask by blast
  finally show ?thesis by simp
qed

lemma masked_points_list:
  "masked_points x y mask' = set (map (\<lambda>(r, c). (x ! r ! c, y ! r ! c)) (where_mask mask'))"
  by (auto simp: masked_points_def set_where_mask)

lemma maskedPositions_filter:
  assumes "has_shape x R C" "has_shape y R C" "has_shape mask' R C" "2 \<le> R" "2 \<le> C"
    "\<not> mask_is_empty mask'"
  shows "maskedPositions positions x y mask' =
    Inr (filter (\<lambda>i. Min (dist2 (positions ! i) ` masked_points x y mask')
                     < (x ! 0 ! 1 - x ! 0 ! 0)\<^sup>2 + (y ! 0 ! 0 - y ! 1 ! 0)\<^sup>2)
           [0..<length positions])"
proof -
  let ?idx = "where_mask mask'"
  let ?pts = "map (\<lambda>(r, c). (x ! r ! c, y ! r ! c)) ?idx"
  have zip: "zip (map (\<lambda>(r, c). x ! r ! c) ?idx) (map (\<lambda>(r, c). y ! r ! c) ?idx) = ?pts"
    by (simp add: zip_map_map zip_same_conv_map case_prod_unfold)
  from assms(6) have ne: "?pts \<noteq> []" by (simp add: mask_is_empty_iff)
  have min: "min_list (map (dist2 pos) ?pts) = Min (dist2 pos ` masked_points x y mask')" for pos
  proof -
    from ne have "map (dist2 pos) ?pts \<noteq> []" by simp
    then have "min_list (map (dist2 pos) ?pts) = Min (set (map (dist2 pos) ?pts))"
      by (rule min_list_Min)
    also have "set (map (dist2 pos) ?pts) = dist2 pos ` masked_points x y mask'"
      by (simp only: masked_points_list set_map)
    finally show ?thesis .
  qed
  have "maskedPositions positions x y mask' =
      positions_loop ?pts ((x ! 0 ! 1 - x ! 0 ! 0)\<^sup>2 + (y ! 0 ! 0 - y ! 1 ! 0)\<^sup>2) positions
        [0..<length positions] []"
    by (simp only: maskedPositions_def take_points_same_shape [OF assms(1,3)]
        take_points_same_shape [OF assms(2,3)] pointSpacing2_value [OF assms(1,2,4,5)]
        zip sum.case)
  then show ?thesis
    by (simp only: positions_loop_filter [OF ne] min append_Nil)
qed

text \<open>
  C1, as amended: for grids and a mask of one shape, with at least two rows and two
  columns and a set cell in the mask, the function returns the indices of the positions
  in ascending order, and the index of a position is among them exactly when the
  squared distance from the position to the nearest masked grid point is strictly less
  than the threshold \<^verbatim>\<open>pointSpacing2\<close>: the squared step between columns plus the squared
  step between rows, which is the squared diagonal of a grid cell (twice the squared
  spacing when both steps are equal), not the squared spacing.
\<close>

theorem maskedPositions_iff:
  assumes "has_shape x R C" "has_shape y R C" "has_shape mask' R C" "2 \<le> R" "2 \<le> C"
    "\<not> mask_is_empty mask'"
  shows "updateSpectrum_positions positions x y (Some mask') = maskedPositions positions x y mask' \<and>
    (\<exists>idx. maskedPositions positions x y mask' = Inr idx \<and> sorted_wrt (<) idx \<and>
      (\<forall>i. (i \<in> set idx) =
         (i < length positions \<and>
          Min (dist2 (positions ! i) ` masked_points x y mask')
            < (x ! 0 ! 1 - x ! 0 ! 0)\<^sup>2 + (y ! 0 ! 0 - y ! 1 ! 0)\<^sup>2)))"
proof -
  let ?P = "\<lambda>i. Min (dist2 (positions ! i) ` masked_points x y mask')
      < (x ! 0 ! 1 - x ! 0 ! 0)\<^sup>2 + (y ! 0 ! 0 - y ! 1 ! 0)\<^sup>2"
  let ?idx = "filter ?P [0..<length positions]"
  have "maskedPositions positions x y mask' = Inr ?idx"
    by (rule maskedPositions_filter [OF assms])
  moreover have "sorted_wrt (<) ?idx"
    by (rule sorted_wrt_filter) simp
  moreover have "\<forall>i. (i \<in> set ?idx) = (i < length positions \<and> ?P i)"
    by (simp only: set_filter set_upt mem_Collect_eq atLeastLessThan_iff) simp
  moreover have "updateSpectrum_positions positions x y (Some mask') =
      maskedPositions positions x y mask'"
    using assms(6) by (simp add: updateSpectrum_positions_def)
  ultimately show ?thesis
    by (intro exI [of _ ?idx] conjI)
qed

theorem maskedPositions_iff_witness:
  "has_shape [[0, 1], [0, 1 :: real]] 2 2 \<and> has_shape [[1, 1], [0, 0 :: real]] 2 2 \<and>
   has_shape [[True, False], [False, False]] 2 2 \<and> (2 :: nat) \<le> 2 \<and>
   \<not> mask_is_empty [[True, False], [False, False]] \<and>
   updateSpectrum_positions [(0, 0), (1, 0), (0, 1), (1, 1)] [[0, 1], [0, 1]] [[1, 1], [0, 0]]
      (Some [[True, False], [False, False]]) =
     maskedPositions [(0, 0), (1, 0), (0, 1), (1, 1)] [[0, 1], [0, 1]] [[1, 1], [0, 0]]
      [[True, False], [False, False]] \<and>
   (\<exists>idx. maskedPositions [(0, 0), (1, 0), (0, 1), (1, 1)] [[0, 1], [0, 1]] [[1, 1], [0, 0]]
           [[True, False], [False, False]] = Inr idx \<and>
      sorted_wrt (<) idx \<and>
      (\<forall>i. (i \<in> set idx) =
         (i < length [(0 :: real, 0 :: real), (1, 0), (0, 1), (1, 1)] \<and>
          Min (dist2 ([(0, 0), (1, 0), (0, 1), (1, 1)] ! i) `
               masked_points [[0, 1], [0, 1]] [[1, 1], [0, 0]] [[True, False], [False, False]])
            < ([[0, 1], [0, 1]] ! 0 ! 1 - [[0, 1], [0, 1]] ! 0 ! 0)\<^sup>2 +
              ([[1, 1], [0, 0]] ! 0 ! 0 - [[1, 1], [0, 0]] ! 1 ! 0)\<^sup>2)))"
proof -
  have hx: "has_shape [[0, 1], [0, 1 :: real]] 2 2"
    and hy: "has_shape [[1, 1], [0, 0 :: real]] 2 2"
    and hm: "has_shape [[True, False], [False, False]] 2 2"
    by (simp_all add: has_shape_def numeral_2_eq_2)
  have n: "(2 :: nat) \<le> 2" by simp
  have ne: "\<not> mask_is_empty [[True, False], [False, False]]"
    by (simp add: mask_is_empty_def)
  note t = maskedPositions_iff [OF hx hy hm n n ne]
  show ?thesis
    by (intro conjI hx hy hm n ne conjunct1 [OF t] conjunct2 [OF t])
qed

lemma small_positions:
  "[0..<length [(0::real, 0::real), (1, 0), (0, 1), (1, 1)]] = [0, 1, 2, 3]"
  by code_simp

lemma small_grid_x: "grid_x 0 1 2 2 = [[0, 1], [0, 1]]"
  by (simp add: grid_x_def numeral_2_eq_2)

lemma small_grid_y: "grid_y 1 1 2 2 = [[1, 1], [0, 0]]"
  by (simp add: grid_y_def numeral_2_eq_2)

lemma small_where: "where_mask [[True, False], [False, False]] = [(0, 0)]"
  by (simp add: where_mask_def numeral_2_eq_2)

lemma small_masked_points:
  "masked_points [[0, 1], [0, 1]] [[1, 1], [0, 0]] [[True, False], [False, False]] = {(0, 1)}"
  by (simp add: masked_points_list small_where)

text \<open>
  C1 as stated fails: on the grid of spacing 1 over the four positions of the unit
  square, with only the top left cell masked, the function returns three of the four
  indices. Position 0 is among them, at squared distance 1 from the masked grid point,
  which is not less than the squared spacing.
\<close>

theorem maskedPositions_beyond_spacing:
  "maskedPositions [(0, 0), (1, 0), (0, 1), (1, 1)] (grid_x 0 1 2 2) (grid_y 1 1 2 2)
      [[True, False], [False, False]] = Inr [0, 2, 3] \<and>
   \<not> Min (dist2 ([(0, 0), (1, 0), (0, 1), (1, 1)] ! 0) `
            masked_points (grid_x 0 1 2 2) (grid_y 1 1 2 2) [[True, False], [False, False]])
       < 1\<^sup>2"
proof -
  have run: "maskedPositions [(0, 0), (1, 0), (0, 1), (1, 1)] [[0, 1], [0, 1]] [[1, 1], [0, 0]]
      [[True, False], [False, False]] = Inr [0, 2, 3]"
    by (simp add: maskedPositions_def take_points_def small_where pointSpacing2_def get2_def
        small_positions min_dist2_def dist2_def)
  have far: "\<not> Min (dist2 ([(0, 0), (1, 0), (0, 1), (1, 1)] ! 0) `
      masked_points [[0, 1], [0, 1]] [[1, 1], [0, 0]] [[True, False], [False, False]]) < 1\<^sup>2"
    by (simp add: small_masked_points dist2_def)
  show ?thesis
    unfolding small_grid_x small_grid_y by (intro conjI run far)
qed

lemma nearest_grid_index:
  assumes "0 < s" "0 \<le> u" "u \<le> real (n - 1) * s" "1 \<le> n"
  shows "\<exists>k<n. (real k * s - u)\<^sup>2 \<le> s\<^sup>2 / 4"
proof -
  define t where "t = u / s"
  define k where "k = nat \<lfloor>t + 1 / 2\<rfloor>"
  from assms(1,2) have t0: "0 \<le> t" by (simp add: t_def)
  from assms(1,3) have tn: "t \<le> real (n - 1)" by (simp add: t_def pos_divide_le_eq)
  from t0 have "0 \<le> \<lfloor>t + 1 / 2\<rfloor>" by simp
  then have rk: "real k = of_int \<lfloor>t + 1 / 2\<rfloor>" by (simp add: k_def)
  have lo: "real k \<le> t + 1 / 2" unfolding rk by (rule of_int_floor_le)
  have hi: "t + 1 / 2 < real k + 1" unfolding rk by linarith
  from lo tn assms(4) have "real k < real n"
    by simp
  then have kn: "k < n" by simp
  from lo hi have "\<bar>real k - t\<bar> \<le> 1 / 2" by linarith
  then have "(real k - t)\<^sup>2 \<le> (1 / 2)\<^sup>2"
    by (metis abs_le_square_iff abs_of_nonneg half_gt_zero_iff less_eq_real_def zero_less_one)
  then have "(real k - t)\<^sup>2 * s\<^sup>2 \<le> (1 / 2)\<^sup>2 * s\<^sup>2"
    by (rule mult_right_mono) simp
  moreover from assms(1) have "u = t * s" by (simp add: t_def)
  then have "(real k * s - u)\<^sup>2 = ((real k - t) * s)\<^sup>2"
    by (simp only: left_diff_distrib)
  then have "(real k * s - u)\<^sup>2 = (real k - t)\<^sup>2 * s\<^sup>2"
    by (simp only: power_mult_distrib)
  ultimately have "(real k * s - u)\<^sup>2 \<le> s\<^sup>2 / 4"
    by (simp add: power2_eq_square)
  with kn show ?thesis by blast
qed

lemma grid_x_nth: "r < R \<Longrightarrow> c < C \<Longrightarrow> grid_x x0 s R C ! r ! c = x0 + real c * s"
  by (simp add: grid_x_def)

lemma grid_y_nth: "r < R \<Longrightarrow> c < C \<Longrightarrow> grid_y y0 s R C ! r ! c = y0 - real r * s"
  by (simp add: grid_y_def)

lemma has_shape_grid_x: "has_shape (grid_x x0 s R C) R C"
  by (simp add: has_shape_def grid_x_def)

lemma has_shape_grid_y: "has_shape (grid_y y0 s R C) R C"
  by (simp add: has_shape_def grid_y_def comp_def map_replicate_const)

lemma has_shape_full_mask: "has_shape (replicate R (replicate C True)) R C"
  by (simp add: has_shape_def)

lemma full_mask_not_empty: "0 < R \<Longrightarrow> 0 < C \<Longrightarrow> \<not> mask_is_empty (replicate R (replicate C True))"
  by (simp add: mask_is_empty_def sum_list_replicate)

lemma finite_masked_points: "finite (masked_points x y mask')"
  by (simp only: masked_points_list) simp

lemma full_mask_near:
  assumes "0 < s" "2 \<le> R" "2 \<le> C" "covers x0 y0 s R C pos"
  shows "Min (dist2 pos ` masked_points (grid_x x0 s R C) (grid_y y0 s R C) (replicate R (replicate C True)))
     < 2 * s\<^sup>2"
proof -
  let ?X = "grid_x x0 s R C" and ?Y = "grid_y y0 s R C"
  let ?M = "replicate R (replicate C True)"
  from assms(4) have cx: "0 \<le> fst pos - x0" "fst pos - x0 \<le> real (C - 1) * s"
    and cy: "0 \<le> y0 - snd pos" "y0 - snd pos \<le> real (R - 1) * s"
    by (simp_all add: covers_def)
  from nearest_grid_index [OF assms(1) cx] assms(3)
  obtain c where c: "c < C" "(real c * s - (fst pos - x0))\<^sup>2 \<le> s\<^sup>2 / 4" by auto
  from nearest_grid_index [OF assms(1) cy] assms(2)
  obtain r where r: "r < R" "(real r * s - (y0 - snd pos))\<^sup>2 \<le> s\<^sup>2 / 4" by auto
  have pt: "(?X ! r ! c, ?Y ! r ! c) \<in> masked_points ?X ?Y ?M"
  proof -
    from c(1) r(1) have "r < length ?M \<and> c < length (?M ! r) \<and> ?M ! r ! c" by simp
    then show ?thesis
      unfolding masked_points_def by blast
  qed
  have "dist2 pos (?X ! r ! c, ?Y ! r ! c)
      = (real c * s - (fst pos - x0))\<^sup>2 + (real r * s - (y0 - snd pos))\<^sup>2"
    using c(1) r(1) by (simp add: dist2_def grid_x_nth grid_y_nth power2_eq_square algebra_simps)
  with c(2) r(2) have d: "dist2 pos (?X ! r ! c, ?Y ! r ! c) \<le> s\<^sup>2 / 2" by simp
  have "Min (dist2 pos ` masked_points ?X ?Y ?M) \<le> dist2 pos (?X ! r ! c, ?Y ! r ! c)"
    by (rule Min_le) (use pt finite_masked_points in auto)
  moreover from assms(1) have "s\<^sup>2 / 2 < 2 * s\<^sup>2" by simp
  ultimately show ?thesis using d by linarith
qed

text \<open>
  C7: on a grid interpolated from the positions (regular, with at least two rows and
  two columns, and bounding every position) a mask that is set in every cell gives
  back the indices of all positions: each position is within half a spacing, in both
  directions, of some grid point.
\<close>

theorem full_mask_all_positions:
  assumes "0 < spacing" "2 \<le> R" "2 \<le> C" "\<forall>pos\<in>set positions. covers x0 y0 spacing R C pos"
  shows "maskedPositions positions (grid_x x0 spacing R C) (grid_y y0 spacing R C)
      (replicate R (replicate C True)) = Inr [0..<length positions]"
proof -
  let ?X = "grid_x x0 spacing R C" and ?Y = "grid_y y0 spacing R C"
  let ?M = "replicate R (replicate C True)"
  from assms(2,3) have pos: "0 < R" "0 < C" "1 < R" "1 < C" by simp_all
  have thr: "(?X ! 0 ! 1 - ?X ! 0 ! 0)\<^sup>2 + (?Y ! 0 ! 0 - ?Y ! 1 ! 0)\<^sup>2 = 2 * spacing\<^sup>2"
    using pos by (simp add: grid_x_nth grid_y_nth)
  have eq: "maskedPositions positions ?X ?Y ?M =
      Inr (filter (\<lambda>i. Min (dist2 (positions ! i) ` masked_points ?X ?Y ?M) < 2 * spacing\<^sup>2)
             [0..<length positions])"
    using maskedPositions_filter [OF has_shape_grid_x has_shape_grid_y has_shape_full_mask
        assms(2,3) full_mask_not_empty [OF pos(1,2)], where positions = positions]
    by (simp only: thr)
  have "\<forall>i\<in>set [0..<length positions].
      Min (dist2 (positions ! i) ` masked_points ?X ?Y ?M) < 2 * spacing\<^sup>2"
  proof
    fix i assume "i \<in> set [0..<length positions]"
    then have "positions ! i \<in> set positions" by simp
    with assms(4) have "covers x0 y0 spacing R C (positions ! i)" by blast
    from full_mask_near [OF assms(1,2,3) this]
    show "Min (dist2 (positions ! i) ` masked_points ?X ?Y ?M) < 2 * spacing\<^sup>2" .
  qed
  then have "filter (\<lambda>i. Min (dist2 (positions ! i) ` masked_points ?X ?Y ?M) < 2 * spacing\<^sup>2)
      [0..<length positions] = [0..<length positions]"
    by (simp only: filter_id_conv)
  with eq show ?thesis by (simp only:)
qed

theorem full_mask_all_positions_witness:
  "(0::real) < 1 \<and> (2::nat) \<le> 2 \<and>
   covers 0 1 1 2 2 (0, 0) \<and> covers 0 1 1 2 2 (1, 0) \<and>
   covers 0 1 1 2 2 (0, 1) \<and> covers 0 1 1 2 2 (1, 1) \<and>
   maskedPositions [(0, 0), (1, 0), (0, 1), (1, 1)] (grid_x 0 1 2 2) (grid_y 1 1 2 2)
      (replicate 2 (replicate 2 True)) = Inr [0, 1, 2, 3]"
proof -
  have c: "covers 0 1 1 2 2 (0, 0)" "covers 0 1 1 2 2 (1, 0)"
    "covers 0 1 1 2 2 (0, 1)" "covers 0 1 1 2 2 (1, 1)"
    by (simp_all add: covers_def)
  then have call: "\<forall>pos\<in>set [(0, 0), (1, 0), (0, 1), (1, 1)]. covers 0 1 1 2 2 pos"
    by simp
  have s: "(0::real) < 1" and n: "(2::nat) \<le> 2" by simp_all
  note t = full_mask_all_positions [OF s n n call]
  from t small_positions have "maskedPositions [(0, 0), (1, 0), (0, 1), (1, 1)] (grid_x 0 1 2 2) (grid_y 1 1 2 2)
      (replicate 2 (replicate 2 True)) = Inr [0, 1, 2, 3]"
    by (simp only:)
  with s n c show ?thesis
    by (intro conjI)
qed

end
